theory Spec2Isabelle
  imports Complex_Main
begin

unbundle bit_operations_syntax

section \<open>Python errors\<close>

text \<open>
  An exception that leaves a function is a value of the model: every operation that can
  raise returns \<open>error + 'a\<close>, with \<open>Inl\<close> the exception.
\<close>

datatype error = KeyError | IndexError | ValueError | OSError

section \<open>The bitmap cache (\<open>_LRUCache\<close>)\<close>

text \<open>
  \<open>collections.OrderedDict\<close> is an association list in insertion order, the oldest
  entry first, with at most one entry per key.
\<close>

type_synonym ('k, 'v) odict = "('k \<times> 'v) list"

definition od_keys :: "('k, 'v) odict \<Rightarrow> 'k list" where
  "od_keys d = map fst d"

text \<open>\<open>key in d\<close>\<close>

definition od_contains :: "'k \<Rightarrow> ('k, 'v) odict \<Rightarrow> bool" where
  "od_contains k d = (map_of d k \<noteq> None)"

text \<open>\<open>d[key]\<close>\<close>

definition od_getitem :: "'k \<Rightarrow> ('k, 'v) odict \<Rightarrow> error + 'v" where
  "od_getitem k d = (case map_of d k of None \<Rightarrow> Inl KeyError | Some v \<Rightarrow> Inr v)"

text \<open>\<open>d[key] = value\<close>: an existing key keeps its position, a new key goes last.\<close>

fun od_setitem :: "'k \<Rightarrow> 'v \<Rightarrow> ('k, 'v) odict \<Rightarrow> ('k, 'v) odict" where
  "od_setitem k v [] = [(k, v)]"
| "od_setitem k v (p # d) = (if fst p = k then (k, v) # d else p # od_setitem k v d)"

text \<open>\<open>d.move_to_end(key)\<close>: raises KeyError on a missing key.\<close>

definition od_move_to_end :: "'k \<Rightarrow> ('k, 'v) odict \<Rightarrow> error + ('k, 'v) odict" where
  "od_move_to_end k d =
     (case map_of d k of
        None \<Rightarrow> Inl KeyError
      | Some v \<Rightarrow> Inr (filter (\<lambda>p. fst p \<noteq> k) d @ [(k, v)]))"

text \<open>\<open>d.popitem(last=False)\<close>: removes and returns the oldest entry; KeyError when empty.\<close>

definition od_popitem_first :: "('k, 'v) odict \<Rightarrow> error + (('k \<times> 'v) \<times> ('k, 'v) odict)" where
  "od_popitem_first d = (case d of [] \<Rightarrow> Inl KeyError | p # d' \<Rightarrow> Inr (p, d'))"

record ('k, 'v) lru_cache =
  max_items :: int
  cache_d :: "('k, 'v) odict"

text \<open>\<open>_LRUCache.__init__\<close>: \<open>self.max_items = max(1, int(max_items))\<close>, an empty dict.\<close>

definition LRUCache :: "int \<Rightarrow> ('k, 'v) lru_cache" where
  "LRUCache n = \<lparr>max_items = max 1 n, cache_d = []\<rparr>"

text \<open>\<open>_LRUCache.get\<close>: a hit moves the key to the end and returns its value.\<close>

definition lru_get :: "'k \<Rightarrow> ('k, 'v) lru_cache \<Rightarrow> error + ('v option \<times> ('k, 'v) lru_cache)" where
  "lru_get key c =
     (if od_contains key (cache_d c) then
        (case od_move_to_end key (cache_d c) of
           Inl e \<Rightarrow> Inl e
         | Inr d' \<Rightarrow>
             (case od_getitem key d' of
                Inl e \<Rightarrow> Inl e
              | Inr v \<Rightarrow> Inr (Some v, c\<lparr>cache_d := d'\<rparr>)))
      else Inr (None, c))"

text \<open>The loop of \<open>put\<close>: \<open>while len(self._d) > self.max_items: self._d.popitem(last=False)\<close>.\<close>

function lru_evict :: "int \<Rightarrow> ('k, 'v) odict \<Rightarrow> error + ('k, 'v) odict" where
  "lru_evict m d =
     (if m < int (length d) then
        (case od_popitem_first d of
           Inl e \<Rightarrow> Inl e
         | Inr (p, d') \<Rightarrow> lru_evict m d')
      else Inr d)"
  by pat_completeness auto
termination
  by (relation "measure (\<lambda>(m, d). length d)")
     (auto simp: od_popitem_first_def split: list.splits)

declare lru_evict.simps [simp del]

text \<open>\<open>_LRUCache.put\<close>\<close>

definition lru_put :: "'k \<Rightarrow> 'v \<Rightarrow> ('k, 'v) lru_cache \<Rightarrow> error + ('k, 'v) lru_cache" where
  "lru_put key v c =
     (case od_move_to_end key (od_setitem key v (cache_d c)) of
        Inl e \<Rightarrow> Inl e
      | Inr d1 \<Rightarrow>
          (case lru_evict (max_items c) d1 of
             Inl e \<Rightarrow> Inl e
           | Inr d2 \<Rightarrow> Inr (c\<lparr>cache_d := d2\<rparr>)))"

text \<open>\<open>_LRUCache.clear\<close>\<close>

definition lru_clear :: "('k, 'v) lru_cache \<Rightarrow> ('k, 'v) lru_cache" where
  "lru_clear c = c\<lparr>cache_d := []\<rparr>"

text \<open>A sequence of calls on one cache; the first exception ends it.\<close>

datatype ('k, 'v) cache_op = Get 'k | Put 'k 'v | Clear

fun apply_op :: "('k, 'v) cache_op \<Rightarrow> ('k, 'v) lru_cache \<Rightarrow> error + ('k, 'v) lru_cache" where
  "apply_op (Get k) c = (case lru_get k c of Inl e \<Rightarrow> Inl e | Inr (r, c') \<Rightarrow> Inr c')"
| "apply_op (Put k v) c = lru_put k v c"
| "apply_op Clear c = Inr (lru_clear c)"

fun run_ops :: "('k, 'v) cache_op list \<Rightarrow> ('k, 'v) lru_cache \<Rightarrow> error + ('k, 'v) lru_cache" where
  "run_ops [] c = Inr c"
| "run_ops (x # xs) c = (case apply_op x c of Inl e \<Rightarrow> Inl e | Inr c' \<Rightarrow> run_ops xs c')"

text \<open>What the constructor establishes and every operation keeps.\<close>

definition lru_inv :: "('k, 'v) lru_cache \<Rightarrow> bool" where
  "lru_inv c = (1 \<le> max_items c \<and> distinct (od_keys (cache_d c))
                 \<and> int (length (cache_d c)) \<le> max_items c)"

text \<open>
  The order \<open>get\<close> and \<open>put\<close> leave behind: the entry of \<open>k\<close> last (most recently
  used), the other entries in their old order.
\<close>

definition od_promoted :: "'k \<Rightarrow> 'v \<Rightarrow> ('k, 'v) odict \<Rightarrow> ('k, 'v) odict" where
  "od_promoted k v d = filter (\<lambda>p. fst p \<noteq> k) d @ [(k, v)]"

section \<open>The framebuffer (\<open>U8G2SimLCD\<close>)\<close>

text \<open>
  A Pillow image is its size and one value per coordinate. The framebuffer is an image
  of mode \<open>L\<close>; a decoded bitmap is an image whose values are 0 and 255.
\<close>

record image =
  im_size :: "int \<times> int"
  im_px :: "int \<times> int \<Rightarrow> int"

definition WHITE :: int where
  "WHITE = 255"

definition BLACK :: int where
  "BLACK = 0"

text \<open>\<open>Image.new("L", size, color)\<close>: Pillow refuses a negative width or height.\<close>

definition Image_new :: "int \<times> int \<Rightarrow> int \<Rightarrow> error + image" where
  "Image_new sz color =
     (if fst sz < 0 \<or> snd sz < 0 then Inl ValueError
      else Inr \<lparr>im_size = sz, im_px = (\<lambda>p. color)\<rparr>)"

text \<open>
  \<open>Image.putpixel(xy, value)\<close>: Pillow counts a negative coordinate from the far edge
  and raises IndexError outside the image. Every call of the source is guarded by the
  range check on \<open>self.width\<close> and \<open>self.height\<close>.
\<close>

definition putpixel :: "image \<Rightarrow> int \<times> int \<Rightarrow> int \<Rightarrow> error + image" where
  "putpixel im xy v =
     (let x = (if fst xy < 0 then fst (im_size im) + fst xy else fst xy);
          y = (if snd xy < 0 then snd (im_size im) + snd xy else snd xy)
      in if 0 \<le> x \<and> x < fst (im_size im) \<and> 0 \<le> y \<and> y < snd (im_size im)
         then Inr (im\<lparr>im_px := (im_px im)((x, y) := v)\<rparr>)
         else Inl IndexError)"

text \<open>
  The fields of \<open>U8G2SimLCD\<close> that drawing reads and writes. The Tk window, the
  scale factors, the font and the frame counter are left out: no drawing primitive
  modelled here reads them.
\<close>

type_synonym cache_key = "string \<times> int option \<times> bool"

record lcd =
  width :: int
  height :: int
  img :: image
  draw_color :: int
  bmp_cache :: "(cache_key, image) lru_cache"

text \<open>\<open>U8G2SimLCD.__init__\<close>\<close>

definition U8G2SimLCD :: "int \<Rightarrow> int \<Rightarrow> int \<Rightarrow> error + lcd" where
  "U8G2SimLCD w h cache_size =
     (case Image_new (w, h) BLACK of
        Inl e \<Rightarrow> Inl e
      | Inr im \<Rightarrow>
          Inr \<lparr>width = w, height = h, img = im, draw_color = WHITE,
               bmp_cache = LRUCache cache_size\<rparr>)"

text \<open>\<open>setDrawColor\<close>: \<open>self.draw_color = WHITE if color else BLACK\<close>\<close>

definition setDrawColor :: "lcd \<Rightarrow> int \<Rightarrow> lcd" where
  "setDrawColor l color = l\<lparr>draw_color := (if color \<noteq> 0 then WHITE else BLACK)\<rparr>"

text \<open>
  \<open>drawPixel\<close>:
  \<^verbatim>\<open>if 0 <= x < self.width and 0 <= y < self.height:
    self.img.putpixel((x, y), self.draw_color)\<close>
\<close>

definition drawPixel :: "lcd \<Rightarrow> int \<Rightarrow> int \<Rightarrow> error + lcd" where
  "drawPixel l x y =
     (if 0 \<le> x \<and> x < width l \<and> 0 \<le> y \<and> y < height l then
        (case putpixel (img l) (x, y) (draw_color l) of
           Inl e \<Rightarrow> Inl e
         | Inr im \<Rightarrow> Inr (l\<lparr>img := im\<rparr>))
      else Inr l)"

section \<open>The packed 1-bpp blit (\<open>drawBitmap1\<close>)\<close>

text \<open>\<open>range(n)\<close>\<close>

definition py_range :: "int \<Rightarrow> int list" where
  "py_range n = map int [0..<nat n]"

text \<open>A \<open>for\<close> loop whose body may raise: the first exception ends the loop.\<close>

fun for_each :: "('a \<Rightarrow> 's \<Rightarrow> error + 's) \<Rightarrow> 'a list \<Rightarrow> 's \<Rightarrow> error + 's" where
  "for_each f [] s = Inr s"
| "for_each f (x # xs) s = (case f x s of Inl e \<Rightarrow> Inl e | Inr s' \<Rightarrow> for_each f xs s')"

text \<open>
  \<open>bytes(int(b) & 0xFF for b in data)\<close>; on \<open>bytes\<close> and \<open>bytearray\<close>, which the
  source takes as they are, the mask changes nothing.
\<close>

definition to_bytes :: "int list \<Rightarrow> int list" where
  "to_bytes data = map (\<lambda>b. b AND 255) data"

text \<open>\<open>buf[i]\<close>: a negative index counts from the end; IndexError out of range.\<close>

definition py_getitem :: "'a list \<Rightarrow> int \<Rightarrow> error + 'a" where
  "py_getitem xs i =
     (if 0 \<le> i \<and> i < int (length xs) then Inr (xs ! nat i)
      else if i < 0 \<and> - int (length xs) \<le> i then Inr (xs ! nat (int (length xs) + i))
      else Inl IndexError)"

text \<open>\<open>bit = (buf[b_i] >> (7 - (col % 8))) & 1 if b_i < len(buf) else 0\<close>\<close>

definition bitmap_bit :: "int list \<Rightarrow> int \<Rightarrow> int \<Rightarrow> error + int" where
  "bitmap_bit buf b_i col =
     (if b_i < int (length buf) then
        (case py_getitem buf b_i of
           Inl e \<Rightarrow> Inl e
         | Inr b \<Rightarrow> Inr (drop_bit (nat (7 - col mod 8)) b AND 1))
      else Inr 0)"

text \<open>The body of the inner loop of \<open>drawBitmap1\<close>, for one \<open>row\<close> and \<open>col\<close>.\<close>

definition blit_bit ::
  "int \<Rightarrow> int \<Rightarrow> int list \<Rightarrow> int \<Rightarrow> bool \<Rightarrow> int \<Rightarrow> int \<Rightarrow> int \<Rightarrow> lcd \<Rightarrow> error + lcd" where
  "blit_bit x y buf stride invert on_color row col l =
     (case bitmap_bit buf (row * stride + col div 8) col of
        Inl e \<Rightarrow> Inl e
      | Inr b \<Rightarrow>
          (let bit = (if invert then b XOR 1 else b)
           in if bit \<noteq> 0 then
                (if 0 \<le> x + col \<and> x + col < width l \<and> 0 \<le> y + row \<and> y + row < height l then
                   (case putpixel (img l) (x + col, y + row) on_color of
                      Inl e \<Rightarrow> Inl e
                    | Inr im \<Rightarrow> Inr (l\<lparr>img := im\<rparr>))
                 else Inr l)
              else Inr l))"

text \<open>\<open>drawBitmap1\<close>; \<open>stride = None\<close> is the default \<open>(w + 7) // 8\<close>.\<close>

definition drawBitmap1 ::
  "lcd \<Rightarrow> int \<Rightarrow> int \<Rightarrow> int \<Rightarrow> int \<Rightarrow> int list \<Rightarrow> int option \<Rightarrow> bool \<Rightarrow> error + lcd" where
  "drawBitmap1 l x y w h data stride invert =
     (let stride' = (case stride of None \<Rightarrow> (w + 7) div 8 | Some s \<Rightarrow> s);
          buf = to_bytes data;
          on_color = draw_color l
      in for_each
           (\<lambda>row. for_each (\<lambda>col. blit_bit x y buf stride' invert on_color row col) (py_range w))
           (py_range h) l)"

text \<open>\<open>drawXBM\<close>\<close>

definition drawXBM :: "lcd \<Rightarrow> int \<Rightarrow> int \<Rightarrow> int \<Rightarrow> int \<Rightarrow> int list \<Rightarrow> error + lcd" where
  "drawXBM l x y w h data = drawBitmap1 l x y w h data (Some ((w + 7) div 8)) False"

subsection \<open>Notions used to state the properties\<close>

text \<open>
  The guarded write that \<open>drawPixel\<close>, \<open>drawBitmap1\<close> and \<open>_blit_PIL_image_mono\<close>
  each spell out, for a destination \<open>(px, py)\<close> and a colour.
\<close>

definition clipped_putpixel :: "lcd \<Rightarrow> int \<Rightarrow> int \<Rightarrow> int \<Rightarrow> error + lcd" where
  "clipped_putpixel l px py color =
     (if 0 \<le> px \<and> px < width l \<and> 0 \<le> py \<and> py < height l then
        (case putpixel (img l) (px, py) color of
           Inl e \<Rightarrow> Inl e
         | Inr im \<Rightarrow> Inr (l\<lparr>img := im\<rparr>))
      else Inr l)"

text \<open>
  The framebuffer with the pixels of \<open>P\<close> set to \<open>color\<close> and every other pixel as it
  was: what a sparse overlay leaves.
\<close>

definition paint :: "lcd \<Rightarrow> (int \<times> int \<Rightarrow> bool) \<Rightarrow> int \<Rightarrow> lcd" where
  "paint l P color =
     l\<lparr>img := (img l)\<lparr>im_px := (\<lambda>p. if P p then color else im_px (img l) p)\<rparr>\<rparr>"

definition in_frame :: "lcd \<Rightarrow> int \<times> int \<Rightarrow> bool" where
  "in_frame l p = (0 \<le> fst p \<and> fst p < width l \<and> 0 \<le> snd p \<and> snd p < height l)"

text \<open>The image has the size the guards check: what the constructor establishes.\<close>

definition lcd_ok :: "lcd \<Rightarrow> bool" where
  "lcd_ok l = (im_size (img l) = (width l, height l))"

text \<open>
  The bit the packed blit decodes at row \<open>r\<close>, column \<open>c\<close> of a bitmap \<open>w\<close> wide with
  the default stride: bit \<open>7 - c mod 8\<close> of byte \<open>r * stride + c div 8\<close>, and 0 past the
  end of the data. Of an element that is not a byte the low eight bits count, as the
  source masks it.
\<close>

definition packed_bit :: "int list \<Rightarrow> int \<Rightarrow> int \<Rightarrow> int \<Rightarrow> bool" where
  "packed_bit data w r c =
     (let i = r * ((w + 7) div 8) + c div 8
      in 0 \<le> i \<and> i < int (length data) \<and> bit (data ! nat i) (nat (7 - c mod 8)))"

text \<open>
  The pixels the packed blit lights: inside the framebuffer, inside the \<open>w\<close> by \<open>h\<close>
  rectangle at \<open>(x, y)\<close>, and the decoded bit, flipped when \<open>invert\<close> is set, is 1.
\<close>

definition packed_lit ::
  "lcd \<Rightarrow> int \<Rightarrow> int \<Rightarrow> int \<Rightarrow> int \<Rightarrow> int list \<Rightarrow> bool \<Rightarrow> int \<times> int \<Rightarrow> bool" where
  "packed_lit l x y w h data invert p =
     (in_frame l p \<and> 0 \<le> fst p - x \<and> fst p - x < w \<and> 0 \<le> snd p - y \<and> snd p - y < h
      \<and> (packed_bit data w (snd p - y) (fst p - x) \<noteq> invert))"

section \<open>Boxes and frames\<close>




section \<open>File-based blitting with the bitmap cache\<close>

text \<open>
  An image file as \<open>Image.open\<close> returns it: its mode (\<open>"1"\<close>, \<open>"L"\<close> or another),
  and its pixels as grey levels, which is what \<open>convert("L")\<close> makes of them; in mode
  \<open>"1"\<close> the levels are 0 and 255. Pillow reads the pixel data when it is first
  needed; a file that opens and then fails while its data is read is not modelled.
\<close>

datatype pil_mode = Mode_1 | Mode_L | Mode_other

record pil_file =
  pf_mode :: pil_mode
  pf_grey :: image

text \<open>
  What the operating system and Pillow answer during one call: \<open>os.path.abspath\<close>,
  \<open>os.stat(...).st_mtime\<close> (\<open>None\<close> when \<open>os.stat\<close> raises) and \<open>Image.open\<close>
  (\<open>None\<close> when it raises). \<open>st_mtime\<close> is a float; the source only truncates it and
  compares it for equality, which is exact on the rational number that the float is.
\<close>

record filesystem =
  fs_abspath :: "string \<Rightarrow> string"
  fs_stat_mtime :: "string \<Rightarrow> rat option"
  fs_image_open :: "string \<Rightarrow> pil_file option"

text \<open>\<open>int(t)\<close> for a float \<open>t\<close>: truncation towards zero.\<close>

definition py_int :: "rat \<Rightarrow> int" where
  "py_int t = (if 0 \<le> t then \<lfloor>t\<rfloor> else \<lceil>t\<rceil>)"

text \<open>
  The key of \<open>_load_image_mono_cached\<close>:
  \<^verbatim>\<open>try:
    abspath = os.path.abspath(path); st = os.stat(abspath)
    key = (abspath, int(st.st_mtime), bool(invert))
except Exception:
    key = (path, None, bool(invert))\<close>
\<close>

definition cache_key :: "filesystem \<Rightarrow> string \<Rightarrow> bool \<Rightarrow> cache_key" where
  "cache_key fs path invert =
     (case fs_stat_mtime fs (fs_abspath fs path) of
        Some t \<Rightarrow> (fs_abspath fs path, Some (py_int t), invert)
      | None \<Rightarrow> (path, None, invert))"

text \<open>\<open>img.point(lambda p: 255 if p >= 128 else 0).convert("1")\<close>\<close>

definition threshold :: "image \<Rightarrow> image" where
  "threshold im = im\<lparr>im_px := (\<lambda>p. if 128 \<le> im_px im p then 255 else 0)\<rparr>"

text \<open>\<open>ImageOps.invert(img.convert("L")).convert("1")\<close>\<close>

definition invert_mono :: "image \<Rightarrow> image" where
  "invert_mono im = threshold (im\<lparr>im_px := (\<lambda>p. 255 - im_px im p)\<rparr>)"

text \<open>The steps of \<open>_load_image_mono_cached\<close> between \<open>Image.open\<close> and \<open>put\<close>.\<close>

definition decode_mono :: "pil_file \<Rightarrow> bool \<Rightarrow> image" where
  "decode_mono f invert =
     (let mode1 = (if pf_mode f \<noteq> Mode_1 \<and> pf_mode f \<noteq> Mode_L then Mode_L else pf_mode f);
          im1 = (if mode1 = Mode_L then threshold (pf_grey f) else pf_grey f)
      in if invert then invert_mono im1 else im1)"

text \<open>
  \<open>_load_image_mono_cached\<close>. The result is the image or \<open>None\<close>, the LCD with its
  cache as the call leaves it, and the lines printed (without the text of the
  exception, which the source appends).
\<close>

definition load_image_mono_cached ::
  "filesystem \<Rightarrow> lcd \<Rightarrow> string \<Rightarrow> bool \<Rightarrow> error + (image option \<times> lcd \<times> string list)" where
  "load_image_mono_cached fs l path invert =
     (let key = cache_key fs path invert in
      case lru_get key (bmp_cache l) of
        Inl e \<Rightarrow> Inl e
      | Inr (cached, c1) \<Rightarrow>
          (case cached of
             Some im \<Rightarrow> Inr (Some im, l\<lparr>bmp_cache := c1\<rparr>, [])
           | None \<Rightarrow>
               (case fs_image_open fs path of
                  None \<Rightarrow> Inr (None, l\<lparr>bmp_cache := c1\<rparr>, [''[BMP] open error''])
                | Some f \<Rightarrow>
                    (case lru_put key (decode_mono f invert) c1 of
                       Inl e \<Rightarrow> Inl e
                     | Inr c2 \<Rightarrow> Inr (Some (decode_mono f invert), l\<lparr>bmp_cache := c2\<rparr>, [])))))"

text \<open>
  The body of the inner loop of \<open>_blit_PIL_image_mono\<close>, for row \<open>j\<close> and column
  \<open>i\<close> of the bitmap: \<open>v = 1 if px[i, j] else 0\<close>, then the write when \<open>v\<close> is set
  and the destination is inside the display. \<open>px[i, j]\<close> is read inside the bitmap,
  since \<open>i\<close> and \<open>j\<close> range over its size.
\<close>

definition blit_px :: "image \<Rightarrow> int \<Rightarrow> int \<Rightarrow> int \<Rightarrow> int \<Rightarrow> int \<Rightarrow> lcd \<Rightarrow> error + lcd" where
  "blit_px pil_img x y on_color j i l =
     (let v = (if im_px pil_img (i, j) \<noteq> 0 then 1 else 0 :: int)
      in if v \<noteq> 0 \<and> 0 \<le> x + i \<and> x + i < width l \<and> 0 \<le> y + j \<and> y + j < height l then
           (case putpixel (img l) (x + i, y + j) on_color of
              Inl e \<Rightarrow> Inl e
            | Inr im \<Rightarrow> Inr (l\<lparr>img := im\<rparr>))
         else Inr l)"

text \<open>\<open>_blit_PIL_image_mono\<close>\<close>

definition blit_PIL_image_mono :: "lcd \<Rightarrow> image \<Rightarrow> int \<Rightarrow> int \<Rightarrow> error + lcd" where
  "blit_PIL_image_mono l pil_img x y =
     (let w = fst (im_size pil_img); h = snd (im_size pil_img); on_color = draw_color l
      in for_each (\<lambda>j. for_each (\<lambda>i. blit_px pil_img x y on_color j i) (py_range w))
           (py_range h) l)"



text \<open>\<open>clearBitmapCache\<close>\<close>

definition clearBitmapCache :: "lcd \<Rightarrow> lcd \<times> string list" where
  "clearBitmapCache l = (l\<lparr>bmp_cache := lru_clear (bmp_cache l)\<rparr>, [''[SIM] Bitmap cache cleared''])"

text \<open>
  The pixels the file blit lights: inside the framebuffer, inside the bitmap placed
  at \<open>(x, y)\<close>, where the bitmap is on.
\<close>

definition file_lit :: "lcd \<Rightarrow> image \<Rightarrow> int \<Rightarrow> int \<Rightarrow> int \<times> int \<Rightarrow> bool" where
  "file_lit l pil_img x y p =
     (in_frame l p \<and> 0 \<le> fst p - x \<and> fst p - x < fst (im_size pil_img)
      \<and> 0 \<le> snd p - y \<and> snd p - y < snd (im_size pil_img)
      \<and> im_px pil_img (fst p - x, snd p - y) \<noteq> 0)"

section \<open>The live-reload loop (\<open>LivePythonRenderer\<close>)\<close>

text \<open>
  A value bound in the globals of the executed file: a callable, known by a number
  that stands for the function object, or anything else. The environment that
  \<open>exec\<close> fills is an association list of names and values.
\<close>

datatype pyval = Callable nat | Other

type_synonym module_env = "(string \<times> pyval) list"

text \<open>
  What one tick finds outside the program: the answer of \<open>os.stat\<close> on the watched
  path, the outcome of reading, compiling and executing the file, and what a call of
  each function object does on this tick. Exceptions are those of class
  \<open>Exception\<close>, which the handlers of the source catch.
\<close>

datatype stat_result = Stat rat | FileNotFound | StatError

datatype load_result = ReadFails | ExecFails | Module module_env

datatype call_outcome = Returns | Raises

record tick_input =
  ti_stat :: stat_result
  ti_source :: load_result
  ti_call :: "nat \<Rightarrow> call_outcome"

text \<open>What a tick does that can be seen from outside, in order.\<close>

datatype event =
    ShowMessage string
  | ShowError string
  | ReadSource
  | Call nat call_outcome
  | Uncaught error

record renderer =
  last_mtime :: "rat option"
  module_env :: "module_env option"
  func_name :: "string option"

text \<open>\<open>LivePythonRenderer.__init__\<close>\<close>

definition LivePythonRenderer :: renderer where
  "LivePythonRenderer = \<lparr>last_mtime = None, module_env = None, func_name = None\<rparr>"

text \<open>
  The search for the entry point:
  \<^verbatim>\<open>for name in ("draw", "demo_draw"):
    candidate = env.get(name)
    if callable(candidate): ...; break\<close>
\<close>

fun find_entry :: "string list \<Rightarrow> module_env \<Rightarrow> string option" where
  "find_entry [] env = None"
| "find_entry (name # names) env =
     (case map_of env name of
        Some (Callable f) \<Rightarrow> Some name
      | _ \<Rightarrow> find_entry names env)"

text \<open>
  \<open>_load\<close>. A missing file shows the waiting message; an unchanged timestamp returns
  at once; otherwise the timestamp is recorded and the file is read and executed. A
  read error and an exec error show their message and return; only the branch that
  finds no entry point sets \<open>self._module_env = None\<close>.
\<close>

definition load :: "tick_input \<Rightarrow> renderer \<Rightarrow> error + (renderer \<times> event list)" where
  "load ti r =
     (case ti_stat ti of
        FileNotFound \<Rightarrow> Inr (r, [ShowMessage ''Waiting for file ...''])
      | StatError \<Rightarrow> Inl OSError
      | Stat t \<Rightarrow>
          if last_mtime r \<noteq> None \<and> Some t = last_mtime r then Inr (r, [])
          else
            (let r1 = r\<lparr>last_mtime := Some t\<rparr> in
             case ti_source ti of
               ReadFails \<Rightarrow> Inr (r1, [ReadSource, ShowMessage ''Read error''])
             | ExecFails \<Rightarrow> Inr (r1, [ReadSource, ShowError ''exec''])
             | Module env \<Rightarrow>
                 (case find_entry [''draw'', ''demo_draw''] env of
                    Some name \<Rightarrow>
                      Inr (r1\<lparr>func_name := Some name, module_env := Some env\<rparr>, [ReadSource])
                  | None \<Rightarrow>
                      Inr (r1\<lparr>module_env := None\<rparr>,
                           [ReadSource, ShowMessage ''No draw(lcd) or demo_draw(lcd) found'']))))"

text \<open>\<open>self._module_env.get(self._func_name)\<close>\<close>

definition bound_func :: "renderer \<Rightarrow> pyval option" where
  "bound_func r =
     (case module_env r of
        None \<Rightarrow> None
      | Some env \<Rightarrow>
          (if env = [] then None
           else (case func_name r of None \<Rightarrow> None | Some name \<Rightarrow> map_of env name)))"

text \<open>
  One tick, the function \<open>pump\<close> of \<open>start\<close>:
  \<^verbatim>\<open>self._load()
if self._module_env:
    func = self._module_env.get(self._func_name)
    if callable(func):
        try: func(self.lcd)
        except Exception as e: self._show_error("draw", e)\<close>
  An exception of \<open>_load\<close> leaves \<open>pump\<close>; the next tick is scheduled in any case.
\<close>

definition pump :: "tick_input \<Rightarrow> renderer \<Rightarrow> renderer \<times> event list" where
  "pump ti r =
     (case load ti r of
        Inl e \<Rightarrow> (r, [Uncaught e])
      | Inr (r1, evs) \<Rightarrow>
          (case bound_func r1 of
             Some (Callable f) \<Rightarrow>
               (case ti_call ti f of
                  Returns \<Rightarrow> (r1, evs @ [Call f Returns])
                | Raises \<Rightarrow> (r1, evs @ [Call f Raises, ShowError ''draw'']))
           | _ \<Rightarrow> (r1, evs)))"

text \<open>A run of the loop: one list of events per tick.\<close>

fun run_ticks :: "tick_input list \<Rightarrow> renderer \<Rightarrow> renderer \<times> event list list" where
  "run_ticks [] r = (r, [])"
| "run_ticks (ti # tis) r =
     (case pump ti r of (r1, evs) \<Rightarrow>
        (case run_ticks tis r1 of (r2, rest) \<Rightarrow> (r2, evs # rest)))"

section \<open>Concrete inputs\<close>

text \<open>
  The globals of a file that defines \<open>draw\<close>; a 2 by 1 display as the constructor
  builds it; a 1 by 1 bitmap with its pixel on, and the file that holds it; and a
  file system that gives every path the same answers.
\<close>

definition demo_env :: module_env where
  "demo_env = [(''__name__'', Other), (''__file__'', Other), (''draw'', Callable 7)]"

definition lcd0 :: lcd where
  "lcd0 = \<lparr>width = 2, height = 1, img = \<lparr>im_size = (2, 1), im_px = (\<lambda>p. 0)\<rparr>,
            draw_color = 255, bmp_cache = \<lparr>max_items = 64, cache_d = []\<rparr>\<rparr>"

definition dot :: image where
  "dot = \<lparr>im_size = (1, 1), im_px = (\<lambda>p. 255)\<rparr>"

definition dot_file :: pil_file where
  "dot_file = \<lparr>pf_mode = Mode_1, pf_grey = dot\<rparr>"

definition fs_fixture :: "rat option \<Rightarrow> pil_file option \<Rightarrow> filesystem" where
  "fs_fixture mtime file =
     \<lparr>fs_abspath = (\<lambda>path. ''/home/'' @ path), fs_stat_mtime = (\<lambda>path. mtime),
      fs_image_open = (\<lambda>path. file)\<rparr>"

text \<open>
  The set of claim C4 as the claim words it: a position counts only when its byte
  index lies within the data and the bit of that byte, flipped when \<open>invert\<close> is
  set, is 1.
\<close>

definition packed_lit_as_stated ::
  "int \<Rightarrow> int \<Rightarrow> int \<Rightarrow> int \<Rightarrow> int list \<Rightarrow> bool \<Rightarrow> int \<times> int \<Rightarrow> bool" where
  "packed_lit_as_stated x y w h data invert p =
     (0 \<le> fst p - x \<and> fst p - x < w \<and> 0 \<le> snd p - y \<and> snd p - y < h
      \<and> (snd p - y) * ((w + 7) div 8) + (fst p - x) div 8 < int (length data)
      \<and> (bit (data ! nat ((snd p - y) * ((w + 7) div 8) + (fst p - x) div 8))
              (nat (7 - (fst p - x) mod 8)) \<noteq> invert))"

section \<open>Properties of the bitmap cache\<close>

lemma map_of_od_setitem: "map_of (od_setitem k v d) = (map_of d)(k \<mapsto> v)"
  by (induction d) (auto simp: fun_eq_iff)

lemma filter_od_setitem:
  "filter (\<lambda>p. fst p \<noteq> k) (od_setitem k v d) = filter (\<lambda>p. fst p \<noteq> k) d"
  by (induction d) auto

lemma od_move_to_end_setitem:
  "od_move_to_end k (od_setitem k v d) = Inr (od_promoted k v d)"
  by (simp add: od_move_to_end_def map_of_od_setitem filter_od_setitem od_promoted_def)

text \<open>The eviction loop keeps the newest \<open>m\<close> entries and never pops an empty dict.\<close>

lemma lru_evict_drop:
  "0 \<le> m \<Longrightarrow> lru_evict m d = Inr (drop (length d - nat m) d)"
proof (induction d)
  case Nil
  then show ?case by (simp add: lru_evict.simps)
next
  case (Cons p d)
  show ?case
  proof (cases "m < int (length (p # d))")
    case True
    then have "length (p # d) - nat m = Suc (length d - nat m)"
      using Cons.prems by simp
    with True Cons show ?thesis
      by (subst lru_evict.simps) (simp add: od_popitem_first_def)
  next
    case False
    then show ?thesis
      by (subst lru_evict.simps) simp
  qed
qed

lemma lru_put_eq:
  "0 \<le> max_items c \<Longrightarrow>
   lru_put k v c =
     Inr (c\<lparr>cache_d := drop (length (od_promoted k v (cache_d c)) - nat (max_items c))
                          (od_promoted k v (cache_d c))\<rparr>)"
  by (simp add: lru_put_def od_move_to_end_setitem lru_evict_drop)

lemma map_of_od_promoted: "map_of (od_promoted k v d) k = Some v"
proof -
  have "map_of (filter (\<lambda>p. fst p \<noteq> k) d) k = None"
    by (induction d) auto
  then show ?thesis by (simp add: map_add_def od_promoted_def)
qed

lemma lru_get_hit:
  "map_of (cache_d c) k = Some v \<Longrightarrow>
   lru_get k c = Inr (Some v, c\<lparr>cache_d := od_promoted k v (cache_d c)\<rparr>)"
  by (simp add: lru_get_def od_contains_def od_move_to_end_def od_getitem_def
      map_of_od_promoted od_promoted_def[symmetric])

lemma lru_get_miss:
  "map_of (cache_d c) k = None \<Longrightarrow> lru_get k c = Inr (None, c)"
  by (simp add: lru_get_def od_contains_def)

lemma distinct_od_promoted:
  "distinct (map fst d) \<Longrightarrow> distinct (map fst (od_promoted k v d))"
  by (auto simp: distinct_map_filter od_promoted_def)

lemma length_od_promoted_hit:
  assumes "map_of d k = Some v"
  shows "length (od_promoted k v' d) \<le> length d"
proof -
  have "length (filter (\<lambda>p. fst p \<noteq> k) d) < length d"
    using assms by (intro length_filter_less[of "(k, v)"]) (auto dest: map_of_SomeD)
  then show ?thesis by (simp add: od_promoted_def)
qed

lemma lru_inv_get:
  assumes "lru_inv c"
  shows "\<exists>r c'. lru_get k c = Inr (r, c') \<and> lru_inv c' \<and> max_items c' = max_items c"
proof (cases "map_of (cache_d c) k")
  case None
  with assms show ?thesis by (simp add: lru_get_miss)
next
  case (Some v)
  show ?thesis
    using assms length_od_promoted_hit[OF Some, of v] distinct_od_promoted[of "cache_d c" k v]
    by (simp add: lru_get_hit[OF Some] lru_inv_def od_keys_def)
qed

lemma length_drop_keep:
  "0 \<le> m \<Longrightarrow> int (length (drop (length xs - nat m) xs)) = min (int (length xs)) m"
  by simp

lemma lru_inv_put:
  assumes "lru_inv c"
  shows "\<exists>c'. lru_put k v c = Inr c' \<and> lru_inv c' \<and> max_items c' = max_items c"
proof -
  let ?d = "od_promoted k v (cache_d c)"
  have m: "0 \<le> max_items c" using assms by (simp add: lru_inv_def)
  have "distinct (map fst ?d)"
    using assms by (simp add: lru_inv_def od_keys_def distinct_od_promoted)
  then have d: "distinct (map fst (drop n ?d))" for n
    unfolding drop_map[symmetric] by (rule distinct_drop)
  have "int (length (drop (length ?d - nat (max_items c)) ?d)) \<le> max_items c"
    unfolding length_drop_keep[OF m] by simp
  then show ?thesis
    using assms d unfolding lru_put_eq[OF m] by (simp add: lru_inv_def od_keys_def)
qed

lemma lru_inv_clear:
  "lru_inv c \<Longrightarrow> lru_inv (lru_clear c) \<and> max_items (lru_clear c) = max_items c"
  by (simp add: lru_inv_def lru_clear_def od_keys_def)

lemma lru_inv_apply_op:
  assumes "lru_inv c"
  shows "\<exists>c'. apply_op x c = Inr c' \<and> lru_inv c' \<and> max_items c' = max_items c"
proof (cases x)
  case (Get k)
  with lru_inv_get[OF assms, of k] show ?thesis by auto
next
  case (Put k v)
  with lru_inv_put[OF assms, of k v] show ?thesis by simp
next
  case Clear
  with lru_inv_clear[OF assms] show ?thesis by simp
qed

lemma lru_inv_run_ops:
  "lru_inv c \<Longrightarrow> \<exists>c'. run_ops xs c = Inr c' \<and> lru_inv c' \<and> max_items c' = max_items c"
proof (induction xs arbitrary: c)
  case Nil
  then show ?case by simp
next
  case (Cons x xs)
  from lru_inv_apply_op[OF Cons.prems, of x] obtain c1 where
    c1: "apply_op x c = Inr c1" "lru_inv c1" "max_items c1 = max_items c" by blast
  from Cons.IH[OF c1(2)] c1 show ?case by simp
qed

lemma lru_inv_LRUCache: "lru_inv (LRUCache n)"
  by (simp add: lru_inv_def LRUCache_def od_keys_def)

lemma run_ops_LRUCache:
  "\<exists>c'. run_ops xs (LRUCache n) = Inr c' \<and> lru_inv c' \<and> max_items c' = max 1 n"
  using lru_inv_run_ops[OF lru_inv_LRUCache, of xs n] by (simp add: LRUCache_def)

lemma drop_keep_last2:
  assumes "2 \<le> m"
  shows "drop (length (A @ [a, b]) - nat m) (A @ [a, b]) = drop (length A + 2 - nat m) A @ [a, b]"
proof -
  have "length A + 2 - nat m \<le> length A" using assms by linarith
  then show ?thesis by simp
qed

text \<open>With room for two entries, the entry promoted last survives the next \<open>put\<close>.\<close>

lemma lru_put_after_hit:
  assumes "2 \<le> max_items c"
  shows "\<exists>c2. lru_put k' v' (c\<lparr>cache_d := od_promoted k v d\<rparr>) = Inr c2
           \<and> k \<in> set (od_keys (cache_d c2))"
proof -
  let ?c = "c\<lparr>cache_d := od_promoted k v d\<rparr>"
  let ?B = "filter (\<lambda>p. fst p \<noteq> k) d"
  have m: "0 \<le> max_items ?c"
    using assms by simp
  have "k \<in> fst ` set (drop (length (od_promoted k' v' (od_promoted k v d)) - nat (max_items c))
                          (od_promoted k' v' (od_promoted k v d)))"
  proof (cases "k' = k")
    case True
    have "0 < nat (max_items c)" using assms by simp
    then have "length ?B + 1 - nat (max_items c) \<le> length ?B"
      by linarith
    then show ?thesis
      using True by (simp add: od_promoted_def)
  next
    case False
    let ?A = "filter (\<lambda>p. fst p \<noteq> k') ?B"
    have "od_promoted k' v' (od_promoted k v d) = ?A @ [(k, v), (k', v')]"
      using False by (simp add: od_promoted_def)
    then show ?thesis
      using drop_keep_last2[OF assms, of ?A "(k, v)" "(k', v')"] by simp
  qed
  then show ?thesis
    unfolding lru_put_eq[OF m] by (simp add: od_keys_def)
qed

section \<open>Properties of the blits\<close>

lemma set_py_range: "set (py_range n) = {i. 0 \<le> i \<and> i < n}"
proof -
  have "i \<in> int ` {0..<nat n} \<longleftrightarrow> 0 \<le> i \<and> i < n" for i
  proof
    assume "i \<in> int ` {0..<nat n}"
    then show "0 \<le> i \<and> i < n" by auto
  next
    assume "0 \<le> i \<and> i < n"
    then have "nat i \<in> {0..<nat n}" "i = int (nat i)" by auto
    then show "i \<in> int ` {0..<nat n}" by blast
  qed
  then show ?thesis by (auto simp: py_range_def)
qed

lemma paint_fields [simp]:
  "width (paint l P c) = width l" "height (paint l P c) = height l"
  "draw_color (paint l P c) = draw_color l" "bmp_cache (paint l P c) = bmp_cache l"
  "im_size (img (paint l P c)) = im_size (img l)"
  "im_px (img (paint l P c)) p = (if P p then c else im_px (img l) p)"
  by (simp_all add: paint_def)

lemma lcd_ok_paint [simp]: "lcd_ok (paint l P c) = lcd_ok l"
  by (simp add: lcd_ok_def)

lemma paint_none: "(\<And>p. \<not> P p) \<Longrightarrow> paint l P c = l"
  by (simp add: paint_def)

lemma paint_paint: "paint (paint l P c) Q c = paint l (\<lambda>p. P p \<or> Q p) c"
  by (auto simp: paint_def fun_eq_iff)

lemma paint_cong: "(\<And>p. P p = Q p) \<Longrightarrow> paint l P c = paint l Q c"
  by (simp add: paint_def)

lemma clipped_putpixel_paint:
  assumes "lcd_ok l"
  shows "clipped_putpixel l px py c = Inr (paint l (\<lambda>p. p = (px, py) \<and> in_frame l p) c)"
proof (cases "in_frame l (px, py)")
  case True
  then have "putpixel (img l) (px, py) c = Inr ((img l)\<lparr>im_px := (im_px (img l))((px, py) := c)\<rparr>)"
    using assms by (simp add: putpixel_def in_frame_def lcd_ok_def)
  moreover have "(im_px (img l))((px, py) := c) = (\<lambda>p. if p = (px, py) \<and> in_frame l p then c else im_px (img l) p)"
    using True by (auto simp: fun_eq_iff)
  ultimately show ?thesis
    using True by (simp add: clipped_putpixel_def in_frame_def paint_def)
next
  case False
  then have same: "paint l (\<lambda>p. p = (px, py) \<and> in_frame l p) c = l"
    by (intro paint_none) auto
  from False have "\<not> (0 \<le> px \<and> px < width l \<and> 0 \<le> py \<and> py < height l)"
    by (simp add: in_frame_def)
  then have "clipped_putpixel l px py c = Inr l"
    unfolding clipped_putpixel_def by (rule if_not_P)
  with same show ?thesis by simp
qed

text \<open>The three writers are the guarded write.\<close>

lemma drawPixel_clipped: "drawPixel l x y = clipped_putpixel l x y (draw_color l)"
  by (simp add: drawPixel_def clipped_putpixel_def)

lemma blit_bit_clipped:
  "blit_bit x y buf stride invert on_color row col l =
     (case bitmap_bit buf (row * stride + col div 8) col of
        Inl e \<Rightarrow> Inl e
      | Inr b \<Rightarrow>
          (if (if invert then b XOR 1 else b) \<noteq> 0
           then clipped_putpixel l (x + col) (y + row) on_color else Inr l))"
  by (simp only: blit_bit_def clipped_putpixel_def Let_def)

lemma blit_px_clipped:
  "blit_px pil x y on_color j i l =
     (if im_px pil (i, j) \<noteq> 0 then clipped_putpixel l (x + i) (y + j) on_color else Inr l)"
  by (simp add: blit_px_def clipped_putpixel_def)

lemma for_each_paint:
  assumes "\<And>a l'. a \<in> set xs \<Longrightarrow> lcd_ok l' \<Longrightarrow> width l' = W \<Longrightarrow> height l' = H
             \<Longrightarrow> f a l' = Inr (paint l' (G a) c)"
      and "lcd_ok l" and "width l = W" and "height l = H"
  shows "for_each f xs l = Inr (paint l (\<lambda>p. \<exists>a\<in>set xs. G a p) c)"
  using assms
proof (induction xs arbitrary: l)
  case Nil
  then show ?case by (simp add: paint_none)
next
  case (Cons x xs)
  have step: "f x l = Inr (paint l (G x) c)"
    using Cons.prems by simp
  have "for_each f xs (paint l (G x) c) = Inr (paint (paint l (G x) c) (\<lambda>p. \<exists>a\<in>set xs. G a p) c)"
    using Cons.prems by (intro Cons.IH) simp_all
  then show ?case
    by (simp add: step paint_paint)
qed

lemma bit_255: "bit (255::int) k \<longleftrightarrow> k < 8"
proof -
  have m: "mask 8 = (255::int)" by (simp add: mask_eq_exp_minus_1)
  show ?thesis unfolding m[symmetric] bit_mask_iff by simp
qed

lemma shifted_bit: "drop_bit k (b::int) AND 1 = of_bool (bit b k)"
  by (simp add: and_one_eq bit_iff_odd_drop_bit mod_2_eq_odd)

lemma byte_bit:
  assumes "k < 8"
  shows "drop_bit k ((b::int) AND 255) AND 1 = of_bool (bit b k)"
proof -
  have "bit (b AND 255) k = bit b k"
    using assms by (simp add: bit_and_iff bit_255)
  then show ?thesis
    unfolding shifted_bit by simp
qed

lemma xor_1_of_bool: "(of_bool P :: int) XOR 1 = of_bool (\<not> P)"
  by (cases P) simp_all

lemma bit_shift_bound: "nat (7 - c mod 8) < 8" for c :: int
  by simp

lemma bitmap_bit_to_bytes:
  assumes "0 \<le> i"
  shows "bitmap_bit (to_bytes data) i c
       = Inr (of_bool (i < int (length data) \<and> bit (data ! nat i) (nat (7 - c mod 8))))"
proof (cases "i < int (length data)")
  case True
  then have "py_getitem (to_bytes data) i = Inr (data ! nat i AND 255)"
    using assms by (simp add: py_getitem_def to_bytes_def)
  then show ?thesis
    using True byte_bit[OF bit_shift_bound, where b = "data ! nat i" and c1 = c]
    by (simp add: bitmap_bit_def to_bytes_def)
next
  case False
  then show ?thesis by (simp add: bitmap_bit_def to_bytes_def)
qed

lemma byte_index_nonneg:
  fixes r c s :: int
  assumes "0 \<le> r" and "0 \<le> c" and "0 \<le> s"
  shows "0 \<le> r * s + c div 8"
proof -
  have "0 \<le> r * s" using assms by simp
  moreover have "0 \<le> c div 8" using assms by simp
  ultimately show ?thesis by simp
qed

lemma blit_bit_paint:
  assumes "lcd_ok l" and "0 \<le> row" and "0 \<le> col" and "col < w"
  shows "blit_bit x y (to_bytes data) ((w + 7) div 8) invert color row col l
       = Inr (paint l (\<lambda>p. p = (x + col, y + row) \<and> in_frame l p
                           \<and> packed_bit data w row col \<noteq> invert) color)"
proof -
  let ?i = "row * ((w + 7) div 8) + col div 8"
  have "0 \<le> (w + 7) div 8" using assms by simp
  then have i: "0 \<le> ?i" using assms by (intro byte_index_nonneg)
  have pb: "packed_bit data w row col
      = (?i < int (length data) \<and> bit (data ! nat ?i) (nat (7 - col mod 8)))"
    using i by (simp add: packed_bit_def Let_def)
  show ?thesis
  proof (cases "packed_bit data w row col \<noteq> invert")
    case True
    then have "blit_bit x y (to_bytes data) ((w + 7) div 8) invert color row col l
        = clipped_putpixel l (x + col) (y + row) color"
      unfolding blit_bit_clipped bitmap_bit_to_bytes[OF i] pb[symmetric]
      by (cases invert) (simp_all add: xor_1_of_bool)
    then show ?thesis
      using True by (simp add: clipped_putpixel_paint[OF assms(1)])
  next
    case False
    then have "blit_bit x y (to_bytes data) ((w + 7) div 8) invert color row col l = Inr l"
      unfolding blit_bit_clipped bitmap_bit_to_bytes[OF i] pb[symmetric]
      by (cases invert) (simp_all add: xor_1_of_bool)
    moreover have "paint l (\<lambda>p. p = (x + col, y + row) \<and> in_frame l p
                           \<and> packed_bit data w row col \<noteq> invert) color = l"
      using False by (intro paint_none) simp
    ultimately show ?thesis by simp
  qed
qed

lemma in_frame_cong: "width l' = width l \<Longrightarrow> height l' = height l \<Longrightarrow> in_frame l' = in_frame l"
  by (simp add: in_frame_def fun_eq_iff)

lemma drawBitmap1_paint:
  assumes ok: "lcd_ok l"
  shows "drawBitmap1 l x y w h data None invert
       = Inr (paint l (packed_lit l x y w h data invert) (draw_color l))"
proof -
  let ?buf = "to_bytes data" and ?s = "(w + 7) div 8" and ?c = "draw_color l"
  let ?G = "\<lambda>row col p. p = (x + col, y + row) \<and> in_frame l p \<and> packed_bit data w row col \<noteq> invert"
  have inner: "for_each (\<lambda>col. blit_bit x y ?buf ?s invert ?c row col) (py_range w) l'
      = Inr (paint l' (\<lambda>p. \<exists>col\<in>set (py_range w). ?G row col p) ?c)"
    if "row \<in> set (py_range h)" and l': "lcd_ok l'" "width l' = width l" "height l' = height l"
    for row l'
  proof (rule for_each_paint[where W = "width l" and H = "height l"])
    fix col l''
    assume "col \<in> set (py_range w)" and l'': "lcd_ok l''" "width l'' = width l" "height l'' = height l"
    then have "0 \<le> col" "col < w" by (simp_all add: set_py_range)
    moreover have "0 \<le> row" using that(1) by (simp add: set_py_range)
    ultimately show "blit_bit x y ?buf ?s invert ?c row col l'' = Inr (paint l'' (?G row col) ?c)"
      using blit_bit_paint[OF l''(1), of row col w x y data invert ?c] in_frame_cong[OF l''(2,3)]
      by simp
  qed (use l' in simp_all)
  have "for_each (\<lambda>row. for_each (\<lambda>col. blit_bit x y ?buf ?s invert ?c row col) (py_range w)) (py_range h) l
      = Inr (paint l (\<lambda>p. \<exists>row\<in>set (py_range h). \<exists>col\<in>set (py_range w). ?G row col p) ?c)"
    by (rule for_each_paint[where W = "width l" and H = "height l"]) (use inner ok in simp_all)
  moreover have "(\<exists>row\<in>set (py_range h). \<exists>col\<in>set (py_range w). ?G row col p)
      = packed_lit l x y w h data invert p" for p
  proof
    assume "\<exists>row\<in>set (py_range h). \<exists>col\<in>set (py_range w). ?G row col p"
    then show "packed_lit l x y w h data invert p"
      by (auto simp: set_py_range packed_lit_def)
  next
    assume lit: "packed_lit l x y w h data invert p"
    then have "snd p - y \<in> set (py_range h)" "fst p - x \<in> set (py_range w)"
      "?G (snd p - y) (fst p - x) p"
      by (auto simp: set_py_range packed_lit_def prod_eq_iff)
    then show "\<exists>row\<in>set (py_range h). \<exists>col\<in>set (py_range w). ?G row col p"
      by blast
  qed
  ultimately show ?thesis
    by (simp add: drawBitmap1_def)
qed

lemma blit_px_paint:
  assumes "lcd_ok l"
  shows "blit_px pil x y color j i l
       = Inr (paint l (\<lambda>p. p = (x + i, y + j) \<and> in_frame l p \<and> im_px pil (i, j) \<noteq> 0) color)"
proof (cases "im_px pil (i, j) \<noteq> 0")
  case True
  then show ?thesis
    by (simp add: blit_px_clipped clipped_putpixel_paint[OF assms])
next
  case False
  then have "paint l (\<lambda>p. p = (x + i, y + j) \<and> in_frame l p \<and> im_px pil (i, j) \<noteq> 0) color = l"
    by (intro paint_none) simp
  with False show ?thesis
    by (simp add: blit_px_clipped)
qed

lemma blit_PIL_image_mono_paint:
  assumes ok: "lcd_ok l"
  shows "blit_PIL_image_mono l pil x y = Inr (paint l (file_lit l pil x y) (draw_color l))"
proof -
  let ?w = "fst (im_size pil)" and ?h = "snd (im_size pil)" and ?c = "draw_color l"
  let ?G = "\<lambda>j i p. p = (x + i, y + j) \<and> in_frame l p \<and> im_px pil (i, j) \<noteq> 0"
  have inner: "for_each (\<lambda>i. blit_px pil x y ?c j i) (py_range ?w) l'
      = Inr (paint l' (\<lambda>p. \<exists>i\<in>set (py_range ?w). ?G j i p) ?c)"
    if l': "lcd_ok l'" "width l' = width l" "height l' = height l" for j l'
  proof (rule for_each_paint[where W = "width l" and H = "height l"])
    fix i l''
    assume l'': "lcd_ok l''" "width l'' = width l" "height l'' = height l"
    then show "blit_px pil x y ?c j i l'' = Inr (paint l'' (?G j i) ?c)"
      using blit_px_paint[OF l''(1), of pil x y ?c j i] in_frame_cong[OF l''(2,3)] by simp
  qed (use l' in simp_all)
  have "for_each (\<lambda>j. for_each (\<lambda>i. blit_px pil x y ?c j i) (py_range ?w)) (py_range ?h) l
      = Inr (paint l (\<lambda>p. \<exists>j\<in>set (py_range ?h). \<exists>i\<in>set (py_range ?w). ?G j i p) ?c)"
    by (rule for_each_paint[where W = "width l" and H = "height l"]) (use inner ok in simp_all)
  moreover have "(\<exists>j\<in>set (py_range ?h). \<exists>i\<in>set (py_range ?w). ?G j i p)
      = file_lit l pil x y p" for p
  proof
    assume "\<exists>j\<in>set (py_range ?h). \<exists>i\<in>set (py_range ?w). ?G j i p"
    then show "file_lit l pil x y p"
      by (auto simp: set_py_range file_lit_def)
  next
    assume lit: "file_lit l pil x y p"
    then have "snd p - y \<in> set (py_range ?h)" "fst p - x \<in> set (py_range ?w)"
      "?G (snd p - y) (fst p - x) p"
      by (auto simp: set_py_range file_lit_def prod_eq_iff)
    then show "\<exists>j\<in>set (py_range ?h). \<exists>i\<in>set (py_range ?w). ?G j i p"
      by blast
  qed
  ultimately show ?thesis
    by (simp add: blit_PIL_image_mono_def)
qed

lemma lcd_cache_same: "l\<lparr>bmp_cache := bmp_cache l\<rparr> = l"
  by simp


lemma load_hit:
  assumes "map_of (cache_d (bmp_cache l)) (cache_key fs path invert) = Some im"
  shows "load_image_mono_cached fs l path invert
       = Inr (Some im, l\<lparr>bmp_cache := (bmp_cache l)\<lparr>cache_d :=
                od_promoted (cache_key fs path invert) im (cache_d (bmp_cache l))\<rparr>\<rparr>, [])"
  using assms by (simp add: load_image_mono_cached_def Let_def lru_get_hit)

lemma load_miss_open_ok:
  assumes "map_of (cache_d (bmp_cache l)) (cache_key fs path invert) = None"
      and "fs_image_open fs path = Some f" and "0 \<le> max_items (bmp_cache l)"
  shows "load_image_mono_cached fs l path invert
       = Inr (Some (decode_mono f invert),
              l\<lparr>bmp_cache := (bmp_cache l)\<lparr>cache_d :=
                drop (length (od_promoted (cache_key fs path invert) (decode_mono f invert)
                                (cache_d (bmp_cache l))) - nat (max_items (bmp_cache l)))
                  (od_promoted (cache_key fs path invert) (decode_mono f invert)
                                (cache_d (bmp_cache l)))\<rparr>\<rparr>, [])"
  using assms by (simp add: load_image_mono_cached_def Let_def lru_get_miss lru_put_eq)

lemma map_of_drop_promoted_same:
  assumes "1 \<le> m"
  shows "map_of (drop (length (od_promoted k v d) - nat m) (od_promoted k v d)) k = Some v"
proof -
  let ?B = "filter (\<lambda>p. fst p \<noteq> k) d"
  have "0 < nat m" using assms by simp
  then have n: "length (od_promoted k v d) - nat m \<le> length ?B"
    by (simp add: od_promoted_def)
  have none: "map_of (drop n ?B) k = None" for n
  proof -
    have "k \<notin> fst ` set ?B" by auto
    moreover have "set (drop n ?B) \<subseteq> set ?B" by (rule set_drop_subset)
    ultimately have "k \<notin> fst ` set (drop n ?B)" by blast
    then show ?thesis by (simp add: map_of_eq_None_iff)
  qed
  have "drop (length (od_promoted k v d) - nat m) (od_promoted k v d)
      = drop (length (od_promoted k v d) - nat m) ?B @ [(k, v)]"
    using n by (simp add: od_promoted_def)
  then show ?thesis
    by (simp add: none map_add_def)
qed


lemma drawBitmap1_default_stride:
  "drawBitmap1 l x y w h data (Some ((w + 7) div 8)) invert = drawBitmap1 l x y w h data None invert"
  by (simp add: drawBitmap1_def)

lemma bitmap_bit_total:
  assumes "0 \<le> i"
  shows "\<exists>b. bitmap_bit buf i col = Inr b"
  using assms by (simp add: bitmap_bit_def py_getitem_def)

lemma clipped_putpixel_outside:
  assumes "\<not> in_frame l (px, py)"
  shows "clipped_putpixel l px py color = Inr l"
proof -
  from assms have "\<not> (0 \<le> px \<and> px < width l \<and> 0 \<le> py \<and> py < height l)"
    by (simp add: in_frame_def)
  then show ?thesis
    unfolding clipped_putpixel_def by (rule if_not_P)
qed

lemma blit_bit_outside:
  assumes "0 \<le> row" and "0 \<le> col" and "0 \<le> stride" and "\<not> in_frame l (x + col, y + row)"
  shows "blit_bit x y buf stride invert color row col l = Inr l"
proof -
  have "0 \<le> row * stride + col div 8"
    using assms(1-3) by (rule byte_index_nonneg)
  then obtain b where "bitmap_bit buf (row * stride + col div 8) col = Inr b"
    using bitmap_bit_total by blast
  then show ?thesis
    by (simp add: blit_bit_clipped clipped_putpixel_outside[OF assms(4)])
qed

lemma blit_px_outside:
  assumes "\<not> in_frame l (x + i, y + j)"
  shows "blit_px pil x y color j i l = Inr l"
  by (simp add: blit_px_clipped clipped_putpixel_outside[OF assms])

lemma cache_key_degraded:
  "fs_stat_mtime fs (fs_abspath fs path) = None \<Longrightarrow> cache_key fs path invert = (path, None, invert)"
  by (simp add: cache_key_def)





text \<open>The constructor gives a display that satisfies the two invariants used below.\<close>

lemma U8G2SimLCD_ok:
  assumes "U8G2SimLCD w h n = Inr l"
  shows "lcd_ok l \<and> lru_inv (bmp_cache l) \<and> width l = w \<and> height l = h"
  using assms
  by (auto simp: U8G2SimLCD_def Image_new_def lcd_ok_def lru_inv_LRUCache split: if_splits)

lemma lcd0_constructed: "U8G2SimLCD 2 1 64 = Inr lcd0"
  by (simp add: U8G2SimLCD_def Image_new_def lcd0_def LRUCache_def WHITE_def BLACK_def)

section \<open>Properties of the live-reload loop\<close>

lemma load_no_call:
  assumes "load ti r = Inr (r1, evs)"
  shows "Call f out \<notin> set evs"
  using assms
  by (auto simp: load_def Let_def split: stat_result.splits load_result.splits option.splits if_splits)

lemma load_unchanged:
  assumes "last_mtime r = Some t" and "ti_stat ti = Stat t"
  shows "load ti r = Inr (r, [])"
  using assms by (simp add: load_def)

lemma pump_call_raises:
  assumes "pump ti r = (r1, evs)" and "Call f Raises \<in> set evs"
  shows "bound_func r1 = Some (Callable f)
       \<and> (\<exists>pre. load ti r = Inr (r1, pre) \<and> evs = pre @ [Call f Raises, ShowError ''draw''])"
proof (cases "load ti r")
  case (Inl e)
  with assms show ?thesis by (auto simp: pump_def)
next
  case (Inr a)
  obtain r' pre where a: "a = (r', pre)" by (cases a)
  have nc: "Call f Raises \<notin> set pre"
    using Inr a load_no_call by blast
  show ?thesis
  proof (cases "bound_func r'")
    case None
    with assms Inr a nc show ?thesis by (simp add: pump_def)
  next
    case (Some v)
    show ?thesis
    proof (cases v)
      case (Callable g)
      with assms Inr a nc Some show ?thesis
        by (cases "ti_call ti g") (auto simp: pump_def)
    next
      case Other
      with assms Inr a nc Some show ?thesis by (simp add: pump_def)
    qed
  qed
qed


section \<open>The claims\<close>

text \<open>
  Claim C10. Whatever \<open>max_items\<close> is given to the constructor, zero and negative
  values included, the capacity of the cache is \<open>max 1 max_items\<close>, which is at least
  1; a \<open>put\<close> into the new cache keeps the inserted entry, and a \<open>get\<close> finds it.
\<close>

theorem lru_capacity_coercion:
  "max_items (LRUCache n :: ('k, 'v) lru_cache) = max 1 n
   \<and> 1 \<le> max_items (LRUCache n :: ('k, 'v) lru_cache)
   \<and> lru_put k v (LRUCache n) = Inr \<lparr>max_items = max 1 n, cache_d = [(k, v)]\<rparr>
   \<and> lru_get k \<lparr>max_items = max 1 n, cache_d = [(k, v)]\<rparr>
       = Inr (Some v, \<lparr>max_items = max 1 n, cache_d = [(k, v)]\<rparr>)"
proof -
  have "(0::int) \<le> max 1 n" by simp
  then have "lru_put k v (LRUCache n) = Inr \<lparr>max_items = max 1 n, cache_d = [(k, v)]\<rparr>"
    by (simp add: lru_put_eq LRUCache_def od_promoted_def)
  then show ?thesis
    by (simp add: LRUCache_def lru_get_hit od_promoted_def)
qed

text \<open>
  Claim C6, as the code has it. (1) From the constructor, every sequence of
  \<open>get\<close>, \<open>put\<close> and \<open>clear\<close> runs without an exception, and after each
  operation (after every prefix \<open>take i ops\<close>) the cache holds at most \<open>max_items\<close>
  entries, with distinct keys. (2) On a cache of capacity \<open>N \<ge> 1\<close>, \<open>put k v\<close>
  moves \<open>k\<close> to the most recently used end and then drops entries from the least
  recently used end, and only those, until \<open>min (size, N)\<close> are left. (3) A \<open>get\<close>
  that hits returns the value and moves the key to the most recently used end; when
  the capacity is at least 2 the next \<open>put\<close>, of any key, does not evict it. With
  capacity 1 the next \<open>put\<close> of another key does evict it: the claim as stated
  fails there.
\<close>

theorem lru_cache_invariant:
  "(\<exists>c'. run_ops (take i ops) (LRUCache n) = Inr c' \<and> max_items c' = max 1 n
         \<and> int (length (cache_d c')) \<le> max_items c' \<and> distinct (od_keys (cache_d c')))
   \<and> (1 \<le> max_items c \<longrightarrow>
        lru_put k v c = Inr (c\<lparr>cache_d := drop (length (od_promoted k v (cache_d c)) - nat (max_items c))
                                           (od_promoted k v (cache_d c))\<rparr>)
        \<and> int (length (drop (length (od_promoted k v (cache_d c)) - nat (max_items c))
                             (od_promoted k v (cache_d c))))
            = min (int (length (od_promoted k v (cache_d c)))) (max_items c))
   \<and> (map_of (cache_d c) k = Some v \<longrightarrow>
        lru_get k c = Inr (Some v, c\<lparr>cache_d := od_promoted k v (cache_d c)\<rparr>)
        \<and> (2 \<le> max_items c \<longrightarrow>
             (\<forall>k' v'. \<exists>c2. lru_put k' v' (c\<lparr>cache_d := od_promoted k v (cache_d c)\<rparr>) = Inr c2
                             \<and> k \<in> set (od_keys (cache_d c2)))))"
proof (intro conjI impI allI)
  show "\<exists>c'. run_ops (take i ops) (LRUCache n) = Inr c' \<and> max_items c' = max 1 n
         \<and> int (length (cache_d c')) \<le> max_items c' \<and> distinct (od_keys (cache_d c'))"
    using run_ops_LRUCache[of "take i ops" n] by (auto simp: lru_inv_def)
next
  assume "1 \<le> max_items c"
  then have m: "0 \<le> max_items c" by simp
  show "lru_put k v c = Inr (c\<lparr>cache_d := drop (length (od_promoted k v (cache_d c)) - nat (max_items c))
                                           (od_promoted k v (cache_d c))\<rparr>)"
    by (rule lru_put_eq[OF m])
  show "int (length (drop (length (od_promoted k v (cache_d c)) - nat (max_items c))
                             (od_promoted k v (cache_d c))))
            = min (int (length (od_promoted k v (cache_d c)))) (max_items c)"
    by (rule length_drop_keep[OF m])
next
  assume hit: "map_of (cache_d c) k = Some v"
  show "lru_get k c = Inr (Some v, c\<lparr>cache_d := od_promoted k v (cache_d c)\<rparr>)"
    by (rule lru_get_hit[OF hit])
  fix k' v'
  assume "2 \<le> max_items c"
  then show "\<exists>c2. lru_put k' v' (c\<lparr>cache_d := od_promoted k v (cache_d c)\<rparr>) = Inr c2
                             \<and> k \<in> set (od_keys (cache_d c2))"
    by (rule lru_put_after_hit)
qed

theorem lru_cache_invariant_witness:
  "1 \<le> max_items \<lparr>max_items = 2, cache_d = [(1::nat, 10::nat), (2, 20)]\<rparr>
   \<and> map_of (cache_d \<lparr>max_items = 2, cache_d = [(1::nat, 10::nat), (2, 20)]\<rparr>) 1 = Some 10
   \<and> 2 \<le> max_items \<lparr>max_items = 2, cache_d = [(1::nat, 10::nat), (2, 20)]\<rparr>
   \<and> (\<exists>c'. run_ops (take 3 [Put (1::nat) (10::nat), Put 2 20, Put 3 30, Get 1]) (LRUCache 2) = Inr c'
           \<and> max_items c' = 2 \<and> int (length (cache_d c')) \<le> max_items c')
   \<and> lru_put 3 30 \<lparr>max_items = 2, cache_d = [(1::nat, 10::nat), (2, 20)]\<rparr>
       = Inr \<lparr>max_items = 2, cache_d = [(2, 20), (3, 30)]\<rparr>
   \<and> lru_get 1 \<lparr>max_items = 2, cache_d = [(1::nat, 10::nat), (2, 20)]\<rparr>
       = Inr (Some 10, \<lparr>max_items = 2, cache_d = [(2, 20), (1, 10)]\<rparr>)
   \<and> (\<exists>c2. lru_put 3 30 \<lparr>max_items = 2, cache_d = [(2::nat, 20::nat), (1, 10)]\<rparr> = Inr c2
           \<and> 1 \<in> set (od_keys (cache_d c2)))"
  using lru_cache_invariant[where i = 3 and ops = "[Put (1::nat) (10::nat), Put 2 20, Put 3 30, Get 1]"
      and n = 2 and c = "\<lparr>max_items = 2, cache_d = [(1::nat, 10::nat), (2, 20)]\<rparr>" and k = 1 and v = 10]
    lru_cache_invariant[where i = 0 and ops = "[] :: (nat, nat) cache_op list" and n = 2
      and c = "\<lparr>max_items = 2, cache_d = [(1::nat, 10::nat), (2, 20)]\<rparr>" and k = 3 and v = 30]
  by (auto simp: od_promoted_def)

text \<open>
  The claim as stated fails with capacity 1: key 1 is put, then hit by \<open>get\<close>, and the
  next \<open>put\<close>, of key 2, evicts it.
\<close>

theorem lru_get_victim_counterexample:
  "lru_put (1::nat) (10::nat) (LRUCache 1) = Inr \<lparr>max_items = 1, cache_d = [(1, 10)]\<rparr>
   \<and> lru_get 1 \<lparr>max_items = 1, cache_d = [(1::nat, 10::nat)]\<rparr>
       = Inr (Some 10, \<lparr>max_items = 1, cache_d = [(1, 10)]\<rparr>)
   \<and> lru_put 2 20 \<lparr>max_items = 1, cache_d = [(1::nat, 10::nat)]\<rparr>
       = Inr \<lparr>max_items = 1, cache_d = [(2, 20)]\<rparr>
   \<and> \<not> od_contains 1 (cache_d \<lparr>max_items = 1, cache_d = [(2::nat, 20::nat)]\<rparr>)"
  by (simp add: LRUCache_def lru_put_def lru_get_def od_move_to_end_def od_contains_def od_getitem_def
      lru_evict.simps od_popitem_first_def)

text \<open>
  Claim C4, as the code has it. On a display whose image has the size the guards
  check, the packed blit with the default stride \<open>ceil(w/8)\<close> (given or left out;
  \<open>drawXBM\<close> passes it) raises no exception for any \<open>x\<close>, \<open>y\<close>, \<open>w\<close>,
  \<open>h\<close>, data of any length and either value of \<open>invert\<close>, and changes nothing
  but pixels: a framebuffer pixel \<open>(x + c, y + r)\<close> with \<open>r\<close> in \<open>[0, h)\<close> and
  \<open>c\<close> in \<open>[0, w)\<close> takes the current draw colour exactly when the decoded bit,
  flipped when \<open>invert\<close> is set, is 1, where the decoded bit is bit
  \<open>7 - c mod 8\<close> of byte \<open>r * stride + c div 8\<close> and 0 when that index is past the
  end of the data; every other pixel keeps its value.
\<close>

theorem packed_blit_decoding:
  assumes "lcd_ok l"
  shows "drawBitmap1 l x y w h data None invert
           = Inr (paint l (packed_lit l x y w h data invert) (draw_color l))
       \<and> drawBitmap1 l x y w h data (Some ((w + 7) div 8)) invert
           = Inr (paint l (packed_lit l x y w h data invert) (draw_color l))
       \<and> drawXBM l x y w h data = Inr (paint l (packed_lit l x y w h data False) (draw_color l))"
  using assms by (simp add: drawBitmap1_default_stride drawBitmap1_paint drawXBM_def)

text \<open>
  An instance: the byte \<open>0b01000000\<close> on a 2 by 1 display lights column 1 and
  leaves column 0.
\<close>

theorem packed_blit_decoding_witness:
  "lcd_ok lcd0
   \<and> drawBitmap1 lcd0 0 0 2 1 [64] None False
       = Inr (paint lcd0 (packed_lit lcd0 0 0 2 1 [64] False) 255)
   \<and> packed_lit lcd0 0 0 2 1 [64] False (1, 0)
   \<and> \<not> packed_lit lcd0 0 0 2 1 [64] False (0, 0)
   \<and> im_px (img (paint lcd0 (packed_lit lcd0 0 0 2 1 [64] False) 255)) (1, 0) = 255
   \<and> im_px (img (paint lcd0 (packed_lit lcd0 0 0 2 1 [64] False) 255)) (0, 0) = 0"
proof -
  have ok: "lcd_ok lcd0" by (simp add: lcd_ok_def lcd0_def)
  have c: "draw_color lcd0 = 255" by (simp add: lcd0_def)
  have lit: "packed_lit lcd0 0 0 2 1 [64] False (1, 0)" "\<not> packed_lit lcd0 0 0 2 1 [64] False (0, 0)"
    by (simp_all add: packed_lit_def packed_bit_def in_frame_def lcd0_def bit_iff_odd)
  from packed_blit_decoding[OF ok, of 0 0 2 1 "[64]" False] ok c lit
  show ?thesis by (simp add: paint_def lcd0_def)
qed

text \<open>
  The set of the claim as stated leaves out the positions past the end of the data
  also when \<open>invert\<close> is set, where the code decodes 0, flips it to 1 and draws:
  with no data at all and \<open>invert\<close> set, pixel \<open>(0, 0)\<close> is written.
\<close>

theorem packed_blit_inverted_short_counterexample:
  "(case drawBitmap1 lcd0 0 0 1 1 [] None True of
      Inl e \<Rightarrow> False
    | Inr l' \<Rightarrow> im_px (img l') (0, 0) = 255)
   \<and> im_px (img lcd0) (0, 0) = 0
   \<and> \<not> packed_lit_as_stated 0 0 1 1 [] True (0, 0)"
  by (simp add: drawBitmap1_def py_range_def blit_bit_def bitmap_bit_def to_bytes_def
      putpixel_def lcd0_def packed_lit_as_stated_def)

text \<open>
  Claim C7. For \<open>(x, y)\<close> outside \<open>[0, width) \<times> [0, height)\<close>, \<open>drawPixel\<close>
  returns the display as it was, with no exception, and so does the clipped write
  on its own. The per-pixel step of the packed blit and that of the file blit return
  the display unchanged when their destination is outside. Both blits as a whole
  raise nothing, wherever the bitmap is placed, and write only pixels inside the
  framebuffer.
\<close>

theorem clipping:
  "(\<not> in_frame l (x, y) \<longrightarrow> drawPixel l x y = Inr l)
   \<and> (0 \<le> row \<and> 0 \<le> col \<and> 0 \<le> stride \<and> \<not> in_frame l (x + col, y + row) \<longrightarrow>
      blit_bit x y buf stride invert color row col l = Inr l)
   \<and> (\<not> in_frame l (x + i, y + j) \<longrightarrow> blit_px pil x y color j i l = Inr l)
   \<and> (lcd_ok l \<longrightarrow>
        (\<exists>P. drawBitmap1 l x y w h data None invert = Inr (paint l P (draw_color l))
             \<and> (\<forall>p. P p \<longrightarrow> in_frame l p))
      \<and> (\<exists>P. blit_PIL_image_mono l pil x y = Inr (paint l P (draw_color l))
             \<and> (\<forall>p. P p \<longrightarrow> in_frame l p)))"
proof (intro conjI impI)
  assume "\<not> in_frame l (x, y)"
  then show "drawPixel l x y = Inr l"
    by (simp add: drawPixel_clipped clipped_putpixel_outside)
next
  assume "0 \<le> row \<and> 0 \<le> col \<and> 0 \<le> stride \<and> \<not> in_frame l (x + col, y + row)"
  then show "blit_bit x y buf stride invert color row col l = Inr l"
    by (simp add: blit_bit_outside)
next
  assume "\<not> in_frame l (x + i, y + j)"
  then show "blit_px pil x y color j i l = Inr l"
    by (rule blit_px_outside)
next
  assume ok: "lcd_ok l"
  have "\<forall>p. packed_lit l x y w h data invert p \<longrightarrow> in_frame l p"
    by (simp add: packed_lit_def)
  with drawBitmap1_paint[OF ok]
  show "\<exists>P. drawBitmap1 l x y w h data None invert = Inr (paint l P (draw_color l))
             \<and> (\<forall>p. P p \<longrightarrow> in_frame l p)"
    by blast
  have "\<forall>p. file_lit l pil x y p \<longrightarrow> in_frame l p"
    by (simp add: file_lit_def)
  with blit_PIL_image_mono_paint[OF ok]
  show "\<exists>P. blit_PIL_image_mono l pil x y = Inr (paint l P (draw_color l))
             \<and> (\<forall>p. P p \<longrightarrow> in_frame l p)"
    by blast
qed

text \<open>
  Instances on the 2 by 1 display: a pixel right of it and one above it; a lit bit
  and a lit bitmap pixel that land right of it; and a blit that is half outside.
\<close>

theorem clipping_witness:
  "\<not> in_frame lcd0 (2, 0) \<and> \<not> in_frame lcd0 (0, -1) \<and> lcd_ok lcd0
   \<and> drawPixel lcd0 2 0 = Inr lcd0
   \<and> drawPixel lcd0 0 (-1) = Inr lcd0
   \<and> blit_bit 1 0 [192] 1 False 255 0 1 lcd0 = Inr lcd0
   \<and> blit_px dot 2 0 255 0 0 lcd0 = Inr lcd0
   \<and> (\<exists>P. drawBitmap1 lcd0 1 0 2 1 [192] None False = Inr (paint lcd0 P 255)
          \<and> (\<forall>p. P p \<longrightarrow> in_frame lcd0 p))
   \<and> (\<exists>P. blit_PIL_image_mono lcd0 dot 2 0 = Inr (paint lcd0 P 255)
          \<and> (\<forall>p. P p \<longrightarrow> in_frame lcd0 p))"
proof -
  have out: "\<not> in_frame lcd0 (2, 0)" "\<not> in_frame lcd0 (0, -1)"
    by (simp_all add: in_frame_def lcd0_def)
  have ok: "lcd_ok lcd0" by (simp add: lcd_ok_def lcd0_def)
  have c: "draw_color lcd0 = 255" by (simp add: lcd0_def)
  have a: "drawPixel lcd0 2 0 = Inr lcd0"
    using clipping[where l = lcd0 and x = 2 and y = 0] out by simp
  have b: "drawPixel lcd0 0 (-1) = Inr lcd0"
    using clipping[where l = lcd0 and x = 0 and y = "-1"] out by simp
  have d: "blit_bit 1 0 [192] 1 False 255 0 1 lcd0 = Inr lcd0"
    using clipping[where l = lcd0 and x = 1 and y = 0 and row = 0 and col = 1 and stride = 1
        and buf = "[192]" and invert = False and color = 255] out by simp
  have e: "blit_px dot 2 0 255 0 0 lcd0 = Inr lcd0"
    using clipping[where l = lcd0 and x = 2 and y = 0 and i = 0 and j = 0 and pil = dot and color = 255]
      out by simp
  have f: "(\<exists>P. drawBitmap1 lcd0 1 0 2 1 [192] None False = Inr (paint lcd0 P 255)
          \<and> (\<forall>p. P p \<longrightarrow> in_frame lcd0 p))
      \<and> (\<exists>P. blit_PIL_image_mono lcd0 dot 2 0 = Inr (paint lcd0 P 255)
          \<and> (\<forall>p. P p \<longrightarrow> in_frame lcd0 p))"
    using clipping[where l = lcd0 and x = 1 and y = 0 and w = 2 and h = 1 and data = "[192]"
        and invert = False and pil = dot] ok c
      clipping[where l = lcd0 and x = 2 and y = 0 and pil = dot] by simp
  from out ok a b d e f show ?thesis by simp
qed

text \<open>
  Claim C2, as the code has it. When the file cannot be stat'ed the key is
  \<open>(path, None, invert)\<close>, with the path as given. Such keys are compared like
  any other: two calls with the same path and flag compute equal keys. A load that
  misses and opens the file stores the decoded image under that key, and a later
  load of the same path and flag, while the file still cannot be stat'ed, hits the
  cache and returns the stored image without opening the file.
\<close>

theorem degraded_key_is_cached:
  assumes nostat: "fs_stat_mtime fs (fs_abspath fs path) = None"
      and nostat': "fs_stat_mtime fs' (fs_abspath fs' path) = None"
      and cap: "1 \<le> max_items (bmp_cache l)"
      and miss: "map_of (cache_d (bmp_cache l)) (path, None, invert) = None"
      and opened: "fs_image_open fs path = Some f"
  shows "cache_key fs path invert = (path, None, invert)
       \<and> cache_key fs' path invert = cache_key fs path invert
       \<and> (\<exists>l1. load_image_mono_cached fs l path invert = Inr (Some (decode_mono f invert), l1, [])
               \<and> map_of (cache_d (bmp_cache l1)) (path, None, invert) = Some (decode_mono f invert)
               \<and> (\<exists>l2. load_image_mono_cached fs' l1 path invert
                          = Inr (Some (decode_mono f invert), l2, [])))"
proof -
  let ?k = "(path, None :: int option, invert)" and ?im = "decode_mono f invert"
  have k: "cache_key fs path invert = ?k" and k': "cache_key fs' path invert = ?k"
    using nostat nostat' by (simp_all add: cache_key_degraded)
  let ?d1 = "drop (length (od_promoted ?k ?im (cache_d (bmp_cache l))) - nat (max_items (bmp_cache l)))
               (od_promoted ?k ?im (cache_d (bmp_cache l)))"
  let ?l1 = "l\<lparr>bmp_cache := (bmp_cache l)\<lparr>cache_d := ?d1\<rparr>\<rparr>"
  have m0: "0 \<le> max_items (bmp_cache l)" using cap by simp
  have first: "load_image_mono_cached fs l path invert = Inr (Some ?im, ?l1, [])"
    using load_miss_open_ok[of l fs path invert f] miss opened m0 by (simp add: k)
  have stored: "map_of (cache_d (bmp_cache ?l1)) ?k = Some ?im"
    using map_of_drop_promoted_same[OF cap] by simp
  then have "map_of (cache_d (bmp_cache ?l1)) (cache_key fs' path invert) = Some ?im"
    by (simp add: k')
  from load_hit[OF this]
  have "\<exists>l2. load_image_mono_cached fs' ?l1 path invert = Inr (Some ?im, l2, [])"
    by blast
  then obtain l2 where second: "load_image_mono_cached fs' ?l1 path invert = Inr (Some ?im, l2, [])"
    by blast
  show ?thesis
  proof (intro conjI)
    show "cache_key fs path invert = ?k" by (rule k)
    show "cache_key fs' path invert = cache_key fs path invert" by (simp add: k k')
    show "\<exists>l1. load_image_mono_cached fs l path invert = Inr (Some ?im, l1, [])
               \<and> map_of (cache_d (bmp_cache l1)) ?k = Some ?im
               \<and> (\<exists>l2. load_image_mono_cached fs' l1 path invert = Inr (Some ?im, l2, []))"
      using first stored second by blast
  qed
qed

theorem degraded_key_is_cached_witness:
  "fs_stat_mtime (fs_fixture None (Some dot_file)) (fs_abspath (fs_fixture None (Some dot_file)) ''a.xbm'') = None
   \<and> fs_stat_mtime (fs_fixture None None) (fs_abspath (fs_fixture None None) ''a.xbm'') = None
   \<and> 1 \<le> max_items (bmp_cache lcd0)
   \<and> map_of (cache_d (bmp_cache lcd0)) (''a.xbm'', None, False) = None
   \<and> fs_image_open (fs_fixture None (Some dot_file)) ''a.xbm'' = Some dot_file
   \<and> cache_key (fs_fixture None (Some dot_file)) ''a.xbm'' False = (''a.xbm'', None, False)
   \<and> (\<exists>l1. load_image_mono_cached (fs_fixture None (Some dot_file)) lcd0 ''a.xbm'' False
               = Inr (Some dot, l1, [])
           \<and> map_of (cache_d (bmp_cache l1)) (''a.xbm'', None, False) = Some dot
           \<and> (\<exists>l2. load_image_mono_cached (fs_fixture None None) l1 ''a.xbm'' False
                      = Inr (Some dot, l2, [])))"
proof -
  have h: "fs_stat_mtime (fs_fixture None (Some dot_file)) (fs_abspath (fs_fixture None (Some dot_file)) ''a.xbm'') = None"
    "fs_stat_mtime (fs_fixture None None) (fs_abspath (fs_fixture None None) ''a.xbm'') = None"
    "1 \<le> max_items (bmp_cache lcd0)"
    "map_of (cache_d (bmp_cache lcd0)) (''a.xbm'', None, False) = None"
    "fs_image_open (fs_fixture None (Some dot_file)) ''a.xbm'' = Some dot_file"
    by (simp_all add: fs_fixture_def lcd0_def)
  have d: "decode_mono dot_file False = dot"
    by (simp add: decode_mono_def dot_file_def)
  from degraded_key_is_cached[OF h] h d show ?thesis by simp
qed

text \<open>
  The claim as stated fails: after a load under the degraded key, a second load of
  the same path returns the cached image although the file can now neither be
  stat'ed nor opened.
\<close>

theorem degraded_key_hit_counterexample:
  "load_image_mono_cached (fs_fixture None (Some dot_file)) lcd0 ''a.xbm'' False
     = Inr (Some dot,
            lcd0\<lparr>bmp_cache := \<lparr>max_items = 64, cache_d = [((''a.xbm'', None, False), dot)]\<rparr>\<rparr>, [])
   \<and> load_image_mono_cached (fs_fixture None None)
        (lcd0\<lparr>bmp_cache := \<lparr>max_items = 64, cache_d = [((''a.xbm'', None, False), dot)]\<rparr>\<rparr>)
        ''a.xbm'' False
     = Inr (Some dot,
            lcd0\<lparr>bmp_cache := \<lparr>max_items = 64, cache_d = [((''a.xbm'', None, False), dot)]\<rparr>\<rparr>, [])"
  by (simp add: load_image_mono_cached_def cache_key_def fs_fixture_def lcd0_def lru_get_def lru_put_def
      od_contains_def od_move_to_end_def od_getitem_def lru_evict.simps decode_mono_def dot_file_def)










text \<open>
  Claim C5. Let the entry point \<open>f\<close> raise when a tick invokes it. Then the
  events of that tick end with the call and the error frame of stage \<open>draw\<close>, and
  \<open>f\<close> is still bound afterwards. On the next tick, if the file's timestamp is the
  one recorded, the state is unchanged, the file is not read again, and the same
  \<open>f\<close> is invoked: alone when it returns (a normal frame), followed by the error
  frame when it raises again.
\<close>

theorem execution_fault_retry:
  assumes "pump ti1 r = (r1, evs1)" and "Call f Raises \<in> set evs1"
      and "last_mtime r1 = Some t" and "ti_stat ti2 = Stat t"
  shows "(\<exists>pre. evs1 = pre @ [Call f Raises, ShowError ''draw''])
       \<and> bound_func r1 = Some (Callable f)
       \<and> pump ti2 r1 =
           (r1, case ti_call ti2 f of
                  Returns \<Rightarrow> [Call f Returns]
                | Raises \<Rightarrow> [Call f Raises, ShowError ''draw''])"
proof -
  from pump_call_raises[OF assms(1,2)]
  have b: "bound_func r1 = Some (Callable f)"
    and e: "\<exists>pre. evs1 = pre @ [Call f Raises, ShowError ''draw'']" by auto
  have "load ti2 r1 = Inr (r1, [])"
    using assms(3,4) by (rule load_unchanged)
  then have "pump ti2 r1 =
           (r1, case ti_call ti2 f of
                  Returns \<Rightarrow> [Call f Returns]
                | Raises \<Rightarrow> [Call f Raises, ShowError ''draw''])"
    using b by (cases "ti_call ti2 f") (simp_all add: pump_def)
  with b e show ?thesis by simp
qed

text \<open>
  An instance: a file that defines \<open>draw\<close> is loaded on tick 1, where the call
  raises; on tick 2, with the same timestamp, the call returns.
\<close>

theorem execution_fault_retry_witness:
  "pump \<lparr>ti_stat = Stat 5, ti_source = Module demo_env, ti_call = (\<lambda>f. Raises)\<rparr> LivePythonRenderer
     = (\<lparr>last_mtime = Some 5, module_env = Some demo_env, func_name = Some ''draw''\<rparr>,
        [ReadSource, Call 7 Raises, ShowError ''draw''])
   \<and> Call 7 Raises \<in> set [ReadSource, Call 7 Raises, ShowError ''draw'']
   \<and> last_mtime \<lparr>last_mtime = Some 5, module_env = Some demo_env, func_name = Some ''draw''\<rparr> = Some 5
   \<and> ti_stat \<lparr>ti_stat = Stat 5, ti_source = ExecFails, ti_call = (\<lambda>f. Returns)\<rparr> = Stat 5
   \<and> pump \<lparr>ti_stat = Stat 5, ti_source = ExecFails, ti_call = (\<lambda>f. Returns)\<rparr>
        \<lparr>last_mtime = Some 5, module_env = Some demo_env, func_name = Some ''draw''\<rparr>
     = (\<lparr>last_mtime = Some 5, module_env = Some demo_env, func_name = Some ''draw''\<rparr>,
        [Call 7 Returns])"
proof -
  have p: "pump \<lparr>ti_stat = Stat 5, ti_source = Module demo_env, ti_call = (\<lambda>f. Raises)\<rparr> LivePythonRenderer
     = (\<lparr>last_mtime = Some 5, module_env = Some demo_env, func_name = Some ''draw''\<rparr>,
        [ReadSource, Call 7 Raises, ShowError ''draw''])"
    by (simp add: pump_def load_def bound_func_def LivePythonRenderer_def demo_env_def)
  have m: "Call 7 Raises \<in> set [ReadSource, Call 7 Raises, ShowError ''draw'']" by simp
  from execution_fault_retry[OF p m, where t = 5
      and ?ti2.0 = "\<lparr>ti_stat = Stat 5, ti_source = ExecFails, ti_call = (\<lambda>f. Returns)\<rparr>"] p
  show ?thesis by simp
qed

text \<open>
  Claim C1 fails on the code. Tick 1 loads a file that defines \<open>draw\<close>. On tick
  2 the timestamp has changed and executing the file fails: the error frame of stage
  \<open>exec\<close> is shown, and then the entry point bound on tick 1 is invoked all the
  same, on that tick and on the next, since the exec-error branch of \<open>_load\<close>
  returns without clearing \<open>_module_env\<close>.
\<close>

theorem stale_entry_point_after_exec_error:
  "run_ticks
     [\<lparr>ti_stat = Stat 1, ti_source = Module demo_env, ti_call = (\<lambda>f. Returns)\<rparr>,
      \<lparr>ti_stat = Stat 2, ti_source = ExecFails, ti_call = (\<lambda>f. Returns)\<rparr>,
      \<lparr>ti_stat = Stat 2, ti_source = ExecFails, ti_call = (\<lambda>f. Returns)\<rparr>]
     LivePythonRenderer
   = (\<lparr>last_mtime = Some 2, module_env = Some demo_env, func_name = Some ''draw''\<rparr>,
      [[ReadSource, Call 7 Returns],
       [ReadSource, ShowError ''exec'', Call 7 Returns],
       [Call 7 Returns]])"
  by (simp add: pump_def load_def bound_func_def LivePythonRenderer_def demo_env_def)

end
